theory Spec2Isabelle
  imports Main
begin

section \<open>Data model\<close>

text \<open>
  The entities of the user service, with the columns the service reads and writes.
  Every entity extends \<^verbatim>\<open>ExtendedEntity\<close>, which contributes the primary key
  \<^verbatim>\<open>id\<close>. A column that may be unset is an option; \<^verbatim>\<open>deletedAt\<close> is the
  tombstone (\<open>None\<close> is SQL NULL).
\<close>

type_synonym timestamp = nat

record UserEntity =
  u_id :: nat
  username :: string
  email :: string
  password :: string
  displayName :: "string option"
  profileImage :: "string option"
  bio :: "string option"
  deletedAt :: "timestamp option"

record FollowerEntity =
  f_id :: nat
  userId :: nat
  followerId :: nat

text \<open>
  \<^verbatim>\<open>CommentVoteEntity\<close>: an integer direction, the voting user and the comment
  voted on (both held by their ids).
\<close>

record CommentVoteEntity =
  cv_id :: nat
  direction :: int
  cv_user :: nat
  cv_comment :: nat

text \<open>The request bodies of registration and of a profile update.\<close>

record RegisterUserDto =
  reg_username :: string
  reg_email :: string
  reg_password :: string
  reg_displayName :: "string option"
  reg_profileImage :: "string option"
  reg_bio :: "string option"

record UpdateUserDto =
  upd_displayName :: "string option"
  upd_profileImage :: "string option"
  upd_bio :: "string option"

text \<open>The parameters object handed to the object-storage service by the upload helper.\<close>

record PutObject =
  Bucket :: string
  Key :: string
  Body :: string
  ACL :: string
  ContentEncoding :: string
  ContentType :: string

text \<open>
  The relational store and the object store behind the service: one row list per
  repository, in insertion order, and the objects that were uploaded.
\<close>

record store =
  users :: "UserEntity list"
  followers :: "FollowerEntity list"
  commentvotes :: "CommentVoteEntity list"
  s3 :: "PutObject list"

text \<open>
  What the service reads from its surroundings: the clock (\<^verbatim>\<open>DateTime.local()\<close>),
  the password hash (\<^verbatim>\<open>argon2.hash\<close>), the base64 decoder
  (\<^verbatim>\<open>Buffer.from(_, 'base64')\<close>), the configuration entry
  \<^verbatim>\<open>aws.s3BucketName\<close> and whether the object store accepts an upload.
\<close>

record env =
  now :: timestamp
  hash :: "string \<Rightarrow> string"
  base64 :: "string \<Rightarrow> string"
  s3BucketName :: "string option"
  s3Accepts :: bool

text \<open>The exceptions the service throws, each with its message.\<close>

datatype http_error =
    BadRequestException string string
  | NotFoundException string
  | UnauthorizedException string
  | InternalServerErrorException string

type_synonym 'a outcome = "(http_error + 'a) \<times> store"

section \<open>Repository primitives\<close>

text \<open>
  The calls the service makes on a repository. \<^verbatim>\<open>findOne(criteria)\<close> is the
  first row that meets the criteria (\<^const>\<open>find\<close>); saving a new entity appends it
  under a generated primary key that no row of the table carries; saving a loaded
  entity writes it back over the row with its primary key; \<^verbatim>\<open>delete(id)\<close>
  removes the rows with that primary key and reports how many there were. The generated
  key is one more than the largest key in the table; the database draws it from a
  sequence, and nothing below depends on more than its being new.
\<close>

definition generated_id :: "nat list \<Rightarrow> nat" where
  "generated_id ids = Suc (foldr max ids 0)"

definition repo_delete :: "nat \<Rightarrow> FollowerEntity list \<Rightarrow> nat \<times> FollowerEntity list" where
  "repo_delete i rows =
     (length (filter (\<lambda>r. f_id r = i) rows), filter (\<lambda>r. f_id r \<noteq> i) rows)"

definition insert_follower :: "FollowerEntity \<Rightarrow> FollowerEntity list \<Rightarrow> FollowerEntity list" where
  "insert_follower f rows = rows @ [f\<lparr>f_id := generated_id (map f_id rows)\<rparr>]"

text \<open>The entity as saved into a table: the entity under its generated primary key.\<close>

definition insert_user :: "UserEntity \<Rightarrow> UserEntity list \<Rightarrow> UserEntity" where
  "insert_user u rows = u\<lparr>u_id := generated_id (map u_id rows)\<rparr>"

definition save_user :: "UserEntity \<Rightarrow> UserEntity list \<Rightarrow> UserEntity list" where
  "save_user u rows = map (\<lambda>r. if u_id r = u_id u then u else r) rows"

text \<open>JavaScript truthiness of an optional string: unset and the empty string are falsy.\<close>

definition truthy :: "string option \<Rightarrow> bool" where
  "truthy v = (case v of None \<Rightarrow> False | Some t \<Rightarrow> t \<noteq> [])"

section \<open>UserService\<close>

definition findOne :: "nat \<Rightarrow> store \<Rightarrow> http_error + UserEntity" where
  "findOne i s =
     (case find (\<lambda>r. u_id r = i \<and> deletedAt r = None) (users s) of
        None \<Rightarrow> Inl (NotFoundException ''User not found'')
      | Some user \<Rightarrow> Inr user)"

definition findOneByEmail :: "string \<Rightarrow> store \<Rightarrow> http_error + UserEntity" where
  "findOneByEmail e s =
     (case find (\<lambda>r. email r = e \<and> deletedAt r = None) (users s) of
        None \<Rightarrow> Inl (NotFoundException ''User not found'')
      | Some user \<Rightarrow> Inr user)"

definition findOneByUsername :: "string \<Rightarrow> store \<Rightarrow> http_error + UserEntity" where
  "findOneByUsername n s =
     (case find (\<lambda>r. username r = n \<and> deletedAt r = None) (users s) of
        None \<Rightarrow> Inl (NotFoundException ''User not found'')
      | Some user \<Rightarrow> Inr user)"

subsection \<open>Profile-image upload\<close>

text \<open>
  The regular expression \<^verbatim>\<open>/^body:image\/\w+;base64,/\<close>: the literal
  \<^verbatim>\<open>body:image/\<close> at the start, one or more word characters
  (\<^verbatim>\<open>[A-Za-z0-9_]\<close>), then the literal \<^verbatim>\<open>;base64,\<close>. The character
  after the word characters must be \<^verbatim>\<open>;\<close>, which is not a word character, so
  the greedy match is the longest run of word characters. \<^verbatim>\<open>replace\<close> with
  the empty string removes the match and returns the string as it is when there is none.
\<close>

definition word_char :: "char \<Rightarrow> bool" where
  "word_char c =
     (c \<in> set (''abcdefghijklmnopqrstuvwxyz'' @ ''ABCDEFGHIJKLMNOPQRSTUVWXYZ'' @ ''0123456789_''))"

definition drop_prefix :: "string \<Rightarrow> string \<Rightarrow> string option" where
  "drop_prefix pre t = (if take (length pre) t = pre then Some (drop (length pre) t) else None)"

definition replace_mime :: "string \<Rightarrow> string" where
  "replace_mime payload =
     (case drop_prefix ''body:image/'' payload of
        None \<Rightarrow> payload
      | Some r \<Rightarrow>
          if takeWhile word_char r = [] then payload
          else (case drop_prefix '';base64,'' (dropWhile word_char r) of
                  None \<Rightarrow> payload
                | Some rest \<Rightarrow> rest))"

text \<open>
  Modelled from the spec: \<^verbatim>\<open>AwsS3Service.upload\<close> (src/aws/aws-s3.service is not
  among the sources). The object is stored as the parameters object describes it and its
  storage key is returned; an upload that fails surfaces as an internal error and stores
  nothing.
\<close>

definition s3_upload :: "env \<Rightarrow> PutObject \<Rightarrow> store \<Rightarrow> string outcome" where
  "s3_upload e p s =
     (if s3Accepts e then (Inr (Key p), s\<lparr>s3 := s3 s @ [p]\<rparr>)
      else (Inl (InternalServerErrorException []), s))"

definition uploadProfileImage :: "env \<Rightarrow> string \<Rightarrow> string \<Rightarrow> store \<Rightarrow> string outcome" where
  "uploadProfileImage e payload name s =
     (let body = base64 e (replace_mime payload)
      in if \<not> truthy (s3BucketName e)
         then (Inl (InternalServerErrorException []), s)
         else s3_upload e
                \<lparr>Bucket = (case s3BucketName e of Some b \<Rightarrow> b | None \<Rightarrow> []),
                 Key = ''pictures/user/'' @ name @ ''.png'',
                 Body = body,
                 ACL = ''public-read'',
                 ContentEncoding = ''base64'',
                 ContentType = ''image/png''\<rparr> s)"

subsection \<open>Registration, update, deletion\<close>

text \<open>
  An optional column that the service does not assign on a new entity is left unset.
\<close>

definition register :: "env \<Rightarrow> RegisterUserDto \<Rightarrow> store \<Rightarrow> UserEntity outcome" where
  "register e dto s =
     (case find (\<lambda>r. username r = reg_username dto \<or> email r = reg_email dto) (users s) of
        Some user \<Rightarrow>
          (Inl (BadRequestException ''Email or Username is already taken'' ''Validation failed''), s)
      | None \<Rightarrow>
          (let newUser =
                 \<lparr>u_id = 0,
                  username = reg_username dto,
                  email = reg_email dto,
                  password = hash e (reg_password dto),
                  displayName = (if truthy (reg_displayName dto) then reg_displayName dto else None),
                  profileImage = None,
                  bio = (if truthy (reg_bio dto) then reg_bio dto else None),
                  deletedAt = None\<rparr>;
               uploaded =
                 (case reg_profileImage dto of
                    None \<Rightarrow> (Inr None, s)
                  | Some img \<Rightarrow>
                      if img = [] then (Inr None, s)
                      else (case uploadProfileImage e img (reg_username dto) s of
                              (Inl err, s1) \<Rightarrow> (Inl err, s1)
                            | (Inr key, s1) \<Rightarrow> (Inr (Some key), s1)))
           in case uploaded of
                (Inl err, s1) \<Rightarrow> (Inl err, s1)
              | (Inr stored, s1) \<Rightarrow>
                  (let savedUser = insert_user (newUser\<lparr>profileImage := stored\<rparr>) (users s1)
                   in (Inr savedUser, s1\<lparr>users := users s1 @ [savedUser]\<rparr>))))"

definition update :: "nat \<Rightarrow> UpdateUserDto \<Rightarrow> store \<Rightarrow> UserEntity outcome" where
  "update i dto s =
     (case find (\<lambda>r. u_id r = i \<and> deletedAt r = None) (users s) of
        None \<Rightarrow> (Inl (NotFoundException ''User not found''), s)
      | Some user \<Rightarrow>
          (let user1 = (if truthy (upd_displayName dto)
                        then user\<lparr>displayName := upd_displayName dto\<rparr> else user);
               user2 = (if truthy (upd_profileImage dto)
                        then user1\<lparr>profileImage := upd_profileImage dto\<rparr> else user1);
               user3 = (if truthy (upd_bio dto) then user2\<lparr>bio := upd_bio dto\<rparr> else user2)
           in (Inr user3, s\<lparr>users := save_user user3 (users s)\<rparr>)))"

definition delete :: "env \<Rightarrow> nat \<Rightarrow> store \<Rightarrow> string outcome" where
  "delete e i s =
     (case find (\<lambda>r. u_id r = i) (users s) of
        None \<Rightarrow> (Inl (NotFoundException ''User not found''), s)
      | Some user \<Rightarrow>
          (let user1 = user\<lparr>deletedAt := Some (now e)\<rparr>;
               user2 = user1\<lparr>displayName := Some ''[DELETED]''\<rparr>;
               user3 = user2\<lparr>username := ''[DELETED]''\<rparr>;
               user4 = user3\<lparr>email := ''[DELETED]''\<rparr>;
               user5 = user4\<lparr>displayName := Some ''pictures/blank-profile-picture-S4P3RS3CR3T''\<rparr>
           in (Inr ''User successfully removed'', s\<lparr>users := save_user user5 (users s)\<rparr>)))"

subsection \<open>The follow toggle\<close>

text \<open>
  The toggle, with the reply of \<^verbatim>\<open>followerRepository.delete\<close> as the repository
  gives it: \<open>del id rows\<close> is the number of rows the delete affected and the table
  it leaves. The lookup of the edge and the delete are two awaited calls, so the reply
  need not be the one the table of the lookup would give.
\<close>

definition followAction_via ::
  "(nat \<Rightarrow> FollowerEntity list \<Rightarrow> nat \<times> FollowerEntity list) \<Rightarrow> nat \<Rightarrow> nat \<Rightarrow> store \<Rightarrow> string outcome"
where
  "followAction_via del uid userToFollowId s =
     (case find (\<lambda>r. u_id r = uid \<and> deletedAt r = None) (users s) of
        None \<Rightarrow> (Inl (NotFoundException ''User not found''), s)
      | Some user \<Rightarrow>
     (case find (\<lambda>r. u_id r = userToFollowId \<and> deletedAt r = None) (users s) of
        None \<Rightarrow>
          (Inl (NotFoundException ''User who you are trying to follow does not exist''), s)
      | Some userToFollow \<Rightarrow>
     (case find (\<lambda>f. userId f = userToFollowId \<and> followerId f = uid) (followers s) of
        Some isFollowing \<Rightarrow>
          (let (affected, rows) = del (f_id isFollowing) (followers s);
               s' = s\<lparr>followers := rows\<rparr>
           in if affected \<noteq> 1
              then (Inl (InternalServerErrorException ''Database error''), s')
              else (Inr ''User unfollowed'', s'))
      | None \<Rightarrow>
          (let follower = \<lparr>f_id = 0, userId = userToFollowId, followerId = uid\<rparr>
           in (Inr ''User followed'',
               s\<lparr>followers := insert_follower follower (followers s)\<rparr>)))))"

text \<open>
  A call that no other chain interleaves with: the delete acts on the table in which the
  edge was found.
\<close>

definition followAction :: "nat \<Rightarrow> nat \<Rightarrow> store \<Rightarrow> string outcome" where
  "followAction uid userToFollowId s = followAction_via repo_delete uid userToFollowId s"

text \<open>
  The reply of a delete that runs after another chain has changed the follower table
  between the lookup and the delete.
\<close>

definition repo_delete_after ::
  "(FollowerEntity list \<Rightarrow> FollowerEntity list) \<Rightarrow> nat \<Rightarrow> FollowerEntity list
     \<Rightarrow> nat \<times> FollowerEntity list"
where
  "repo_delete_after between i rows = repo_delete i (between rows)"

section \<open>Comment votes\<close>

text \<open>
  Modelled from the spec: the comment-vote service (only the entity
  \<^verbatim>\<open>CommentVoteEntity\<close> is among the sources). A vote by a voter on a target
  overwrites the direction of the row that the pair already has, and inserts a row
  when the pair has none.
\<close>

definition vote :: "nat \<Rightarrow> nat \<Rightarrow> int \<Rightarrow> store \<Rightarrow> store" where
  "vote voter target d s =
     (case find (\<lambda>v. cv_user v = voter \<and> cv_comment v = target) (commentvotes s) of
        Some existing \<Rightarrow>
          s\<lparr>commentvotes :=
              map (\<lambda>v. if cv_user v = voter \<and> cv_comment v = target
                        then v\<lparr>direction := d\<rparr> else v) (commentvotes s)\<rparr>
      | None \<Rightarrow>
          s\<lparr>commentvotes := commentvotes s @
              [\<lparr>cv_id = generated_id (map cv_id (commentvotes s)),
                direction = d, cv_user = voter, cv_comment = target\<rparr>]\<rparr>)"

definition vote_rows :: "nat \<Rightarrow> nat \<Rightarrow> store \<Rightarrow> CommentVoteEntity list" where
  "vote_rows voter target s =
     filter (\<lambda>v. cv_user v = voter \<and> cv_comment v = target) (commentvotes s)"

definition votes_ok :: "store \<Rightarrow> bool" where
  "votes_ok s = distinct (map (\<lambda>v. (cv_user v, cv_comment v)) (commentvotes s))"

section \<open>RequestContext\<close>

text \<open>
  A JavaScript value that may be \<^verbatim>\<open>null\<close> or \<^verbatim>\<open>undefined\<close>. Reading a
  property of either throws a \<^verbatim>\<open>TypeError\<close>; an object is truthy, the other two
  are falsy.
\<close>

datatype 'a js = Null | Undefined | Val 'a

datatype js_error = TypeError

definition js_truthy :: "'a js \<Rightarrow> bool" where
  "js_truthy v = (case v of Val x \<Rightarrow> True | Null \<Rightarrow> False | Undefined \<Rightarrow> False)"

definition getprop :: "'a js \<Rightarrow> ('a \<Rightarrow> 'b) \<Rightarrow> js_error + 'b" where
  "getprop v f = (case v of Val x \<Rightarrow> Inr (f x) | Null \<Rightarrow> Inl TypeError | Undefined \<Rightarrow> Inl TypeError)"

definition then_e :: "js_error + 'a \<Rightarrow> ('a \<Rightarrow> js_error + 'b) \<Rightarrow> js_error + 'b" where
  "then_e m f = (case m of Inl err \<Rightarrow> Inl err | Inr v \<Rightarrow> f v)"

text \<open>
  The request with its authenticated-user field, and the context record built once per
  inbound request.
\<close>

record Request =
  req_user :: "UserEntity js"

type_synonym Response = unit

record RequestContext =
  rc_id :: int
  request :: Request
  response :: Response

text \<open>
  The continuation-local storage the lookups read: \<^verbatim>\<open>cls.getNamespace\<close> yields
  the namespace registered under a name or \<^verbatim>\<open>undefined\<close>; the namespace's
  \<^verbatim>\<open>active\<close> is the context object of the chain that is running, or
  \<^verbatim>\<open>null\<close> outside any chain; \<^verbatim>\<open>get(key)\<close> reads a key of the active
  context and is \<^verbatim>\<open>undefined\<close> without one.
\<close>

type_synonym cls_context = "string \<Rightarrow> RequestContext js"

record Namespace =
  active :: "cls_context js"

type_synonym cls = "string \<Rightarrow> Namespace js"

definition ns_get :: "Namespace \<Rightarrow> string \<Rightarrow> RequestContext js" where
  "ns_get ns key = (case active ns of Val c \<Rightarrow> c key | Null \<Rightarrow> Undefined | Undefined \<Rightarrow> Undefined)"

definition currentRequestContext :: "string \<Rightarrow> cls \<Rightarrow> js_error + RequestContext js" where
  "currentRequestContext nsid getNamespace =
     (let session = getNamespace nsid
      in then_e (if js_truthy session
                 then then_e (getprop session active) (\<lambda>a. Inr (js_truthy a))
                 else Inr False)
           (\<lambda>ok. if ok then getprop session (\<lambda>ns. ns_get ns ''RequestContext'')
                  else Inr Null))"

definition currentRequest :: "string \<Rightarrow> cls \<Rightarrow> js_error + Request js" where
  "currentRequest nsid getNamespace =
     then_e (currentRequestContext nsid getNamespace)
       (\<lambda>requestContext.
          if js_truthy requestContext
          then then_e (getprop requestContext request) (\<lambda>r. Inr (Val r))
          else Inr Null)"

text \<open>
  In \<open>currentUser\<close> the test \<^verbatim>\<open>requestContext instanceof RequestContext\<close>
  holds of every object of the context type, so the guard is the truthiness test alone.
\<close>

definition currentUser :: "string \<Rightarrow> cls \<Rightarrow> js_error + UserEntity js" where
  "currentUser nsid getNamespace =
     then_e (currentRequestContext nsid getNamespace)
       (\<lambda>requestContext.
          if js_truthy requestContext
          then then_e (getprop requestContext request)
                 (\<lambda>r. let user = req_user r in if js_truthy user then Inr user else Inr Null)
          else Inr Null)"



section \<open>Store predicates\<close>

definition live :: "UserEntity \<Rightarrow> bool" where
  "live r = (deletedAt r = None)"

definition resolves :: "nat \<Rightarrow> store \<Rightarrow> bool" where
  "resolves i s = (\<not> isl (findOne i s))"

definition has_edge :: "nat \<Rightarrow> nat \<Rightarrow> store \<Rightarrow> bool" where
  "has_edge t u s = (find (\<lambda>f. userId f = t \<and> followerId f = u) (followers s) \<noteq> None)"

text \<open>
  The constraints of the tables: primary keys are unique, a follow edge is stored at most
  once per ordered pair, and no two principals that are not tombstoned share a username
  or an email.
\<close>

definition followers_ok :: "store \<Rightarrow> bool" where
  "followers_ok s =
     (distinct (map f_id (followers s)) \<and>
      distinct (map (\<lambda>f. (userId f, followerId f)) (followers s)))"

definition users_ok :: "store \<Rightarrow> bool" where
  "users_ok s =
     (distinct (map u_id (users s)) \<and>
      distinct (map username (filter live (users s))) \<and>
      distinct (map email (filter live (users s))))"

text \<open>The row that \<open>delete\<close> writes back for a loaded row.\<close>

definition tombstone :: "env \<Rightarrow> UserEntity \<Rightarrow> UserEntity" where
  "tombstone e u = u\<lparr>deletedAt := Some (now e), username := ''[DELETED]'', email := ''[DELETED]'',
       displayName := Some ''pictures/blank-profile-picture-S4P3RS3CR3T''\<rparr>"

text \<open>The uniqueness query of \<open>register\<close> finds a row.\<close>

definition taken :: "RegisterUserDto \<Rightarrow> store \<Rightarrow> bool" where
  "taken dto s =
     (find (\<lambda>r. username r = reg_username dto \<or> email r = reg_email dto) (users s) \<noteq> None)"


section \<open>Concrete stores\<close>

definition env0 :: env where
  "env0 = \<lparr>now = 1000, hash = (\<lambda>p. ''argon2:'' @ p), base64 = (\<lambda>t. ''decoded:'' @ t),
            s3BucketName = Some ''noddit'', s3Accepts = True\<rparr>"

definition alice :: UserEntity where
  "alice = \<lparr>u_id = 1, username = ''alice'', email = ''a@x.com'', password = ''argon2:p1'',
             displayName = Some ''Alice'', profileImage = Some ''pictures/user/alice.png'',
             bio = Some ''hello'', deletedAt = None\<rparr>"

definition bob :: UserEntity where
  "bob = \<lparr>u_id = 2, username = ''bob'', email = ''b@y.com'', password = ''argon2:p2'',
           displayName = None, profileImage = None, bio = None, deletedAt = None\<rparr>"

definition carol :: UserEntity where
  "carol = \<lparr>u_id = 3, username = ''[DELETED]'', email = ''[DELETED]'', password = ''argon2:p3'',
             displayName = Some ''pictures/blank-profile-picture-S4P3RS3CR3T'',
             profileImage = None, bio = None, deletedAt = Some 500\<rparr>"

definition store0 :: store where
  "store0 = \<lparr>users = [alice, bob, carol], followers = [], commentvotes = [], s3 = []\<rparr>"

definition store1 :: store where
  "store1 = store0\<lparr>followers := [\<lparr>f_id = 1, userId = 1, followerId = 2\<rparr>]\<rparr>"

definition store_dup :: store where
  "store_dup = store0\<lparr>followers := [\<lparr>f_id = 1, userId = 1, followerId = 2\<rparr>,
                                    \<lparr>f_id = 1, userId = 2, followerId = 1\<rparr>]\<rparr>"


definition empty_store :: store where
  "empty_store = \<lparr>users = [], followers = [], commentvotes = [], s3 = []\<rparr>"

definition alice_dto :: RegisterUserDto where
  "alice_dto = \<lparr>reg_username = ''alice'', reg_email = ''a@x.com'', reg_password = ''p1'',
                 reg_displayName = Some ''Alice'', reg_profileImage = None, reg_bio = Some []\<rparr>"

definition alice2_dto :: RegisterUserDto where
  "alice2_dto = \<lparr>reg_username = ''alice'', reg_email = ''b@y.com'', reg_password = ''p2'',
                  reg_displayName = None, reg_profileImage = None, reg_bio = None\<rparr>"

definition dave_dto :: RegisterUserDto where
  "dave_dto = \<lparr>reg_username = ''dave'', reg_email = ''d@z.com'', reg_password = ''p4'',
                reg_displayName = None, reg_profileImage = Some ''data:image/png;base64,QUJD'',
                reg_bio = None\<rparr>"

definition env_unconfigured :: env where
  "env_unconfigured = env0\<lparr>s3BucketName := None\<rparr>"

definition store_voted :: store where
  "store_voted = store0\<lparr>commentvotes :=
      [\<lparr>cv_id = 1, direction = 1, cv_user = 1, cv_comment = 7\<rparr>,
       \<lparr>cv_id = 2, direction = - 1, cv_user = 2, cv_comment = 7\<rparr>]\<rparr>"







lemmas ex_defs = store0_def store1_def store_dup_def alice_def bob_def carol_def env0_def
  empty_store_def alice_dto_def alice2_dto_def dave_dto_def env_unconfigured_def
  store_voted_def

section \<open>Repository lemmas\<close>

lemma foldr_max_ge: "i \<in> set ids \<Longrightarrow> i \<le> foldr max ids (0::nat)"
  by (induction ids) (auto simp: max_def)

lemma generated_id_fresh: "generated_id ids \<notin> set ids"
  using foldr_max_ge [of "generated_id ids" ids] by (auto simp: generated_id_def)

lemma generated_id_neq: "r \<in> set rows \<Longrightarrow> g r \<noteq> generated_id (map g rows)"
  using generated_id_fresh [of "map g rows"] by force

lemma resolves_find:
  "resolves i s = (find (\<lambda>r. u_id r = i \<and> deletedAt r = None) (users s) \<noteq> None)"
  by (simp add: resolves_def findOne_def split: option.splits)

lemma filter_key_single:
  "distinct (map g xs) \<Longrightarrow> x \<in> set xs \<Longrightarrow> filter (\<lambda>r. g r = g x) xs = [x]"
proof (induction xs)
  case Nil
  then show ?case by simp
next
  case (Cons a xs)
  show ?case
  proof (cases "a = x")
    case True
    have "g x \<notin> g ` set xs"
      using Cons.prems(1) True by simp
    then have "filter (\<lambda>r. g r = g x) xs = []"
      unfolding filter_empty_conv by (metis imageI)
    with True show ?thesis by simp
  next
    case False
    with Cons.prems have "x \<in> set xs" "g a \<noteq> g x" by auto
    with Cons show ?thesis by simp
  qed
qed

lemma followAction_not_found:
  "\<not> resolves uid s \<or> \<not> resolves t s \<Longrightarrow>
     (\<exists>m. followAction uid t s = (Inl (NotFoundException m), s))"
  by (auto simp: resolves_find followAction_def followAction_via_def split: option.splits)

lemma followAction_follow:
  assumes "resolves uid s" "resolves t s" "\<not> has_edge t uid s"
  shows "followAction uid t s =
     (Inr ''User followed'',
      s\<lparr>followers := followers s @
          [\<lparr>f_id = generated_id (map f_id (followers s)), userId = t, followerId = uid\<rparr>]\<rparr>)"
  using assms
  by (auto simp: resolves_find has_edge_def followAction_def followAction_via_def insert_follower_def split: option.splits)

lemma followAction_unfollow:
  assumes "resolves uid s" "resolves t s"
    and "find (\<lambda>f. userId f = t \<and> followerId f = uid) (followers s) = Some e"
  shows "followAction uid t s =
     (if length (filter (\<lambda>r. f_id r = f_id e) (followers s)) \<noteq> 1
      then Inl (InternalServerErrorException ''Database error'') else Inr ''User unfollowed'',
      s\<lparr>followers := filter (\<lambda>r. f_id r \<noteq> f_id e) (followers s)\<rparr>)"
  using assms
  by (auto simp: resolves_find followAction_def followAction_via_def repo_delete_def split: option.splits)

lemma has_edge_after_delete:
  assumes ok: "followers_ok s"
    and e: "find (\<lambda>f. userId f = t \<and> followerId f = uid) (followers s) = Some e"
  shows "\<not> has_edge t uid (s\<lparr>followers := filter (\<lambda>r. f_id r \<noteq> f_id e) (followers s)\<rparr>)"
proof -
  from e have em: "e \<in> set (followers s)" "userId e = t" "followerId e = uid"
    by (auto simp: find_Some_iff)
  from ok have inj: "inj_on (\<lambda>f. (userId f, followerId f)) (set (followers s))"
    by (simp add: followers_ok_def distinct_map)
  have "r = e" if "r \<in> set (followers s)" "userId r = t" "followerId r = uid" for r
    using inj that em by (auto dest: inj_onD)
  then show ?thesis
    by (auto simp: has_edge_def find_None_iff)
qed

lemma has_edge_after_insert:
  "has_edge t uid (s\<lparr>followers := followers s @ [\<lparr>f_id = i, userId = t, followerId = uid\<rparr>]\<rparr>)"
  by (auto simp: has_edge_def find_None_iff
      intro: exI [of _ "\<lparr>f_id = i, userId = t, followerId = uid\<rparr>"])

lemma delete_inserted:
  "filter (\<lambda>r. f_id r \<noteq> generated_id (map f_id rows)) rows = rows"
  by (simp add: filter_id_conv generated_id_neq)

lemma count_inserted:
  "filter (\<lambda>r. f_id r = generated_id (map f_id rows)) rows = []"
  by (simp add: filter_empty_conv generated_id_neq)

lemma find_inserted:
  "find P rows = None \<Longrightarrow> P x \<Longrightarrow> find P (rows @ [x]) = Some x"
  by (induction rows) (auto split: if_splits)

text \<open>
  Claim C1. When the actor and the target both resolve to principals that are not
  tombstoned, two calls of \<open>followAction\<close> in a row bring the pair back to the
  edge-existence state it started in. Without an edge, the first call appends exactly one
  row for the pair and answers "User followed", and the second call removes that row
  again, leaving the store as it was, and answers "User unfollowed". With an edge (in a
  follower table that meets its constraints) the first call answers "User unfollowed"
  and removes the edge, and the second answers "User followed" and stores it again.
\<close>

theorem followAction_toggle:
  assumes u: "resolves uid s" and t: "resolves t s"
    and ok: "has_edge t uid s \<longrightarrow> followers_ok s"
  shows "has_edge t uid (snd (followAction uid t (snd (followAction uid t s)))) = has_edge t uid s
    \<and> (\<not> has_edge t uid s \<longrightarrow>
         followAction uid t s =
           (Inr ''User followed'',
            s\<lparr>followers := followers s @
               [\<lparr>f_id = generated_id (map f_id (followers s)), userId = t, followerId = uid\<rparr>]\<rparr>)
         \<and> followAction uid t (snd (followAction uid t s)) = (Inr ''User unfollowed'', s))
    \<and> (has_edge t uid s \<longrightarrow>
         fst (followAction uid t s) = Inr ''User unfollowed''
         \<and> \<not> has_edge t uid (snd (followAction uid t s))
         \<and> fst (followAction uid t (snd (followAction uid t s))) = Inr ''User followed'')"
proof (cases "has_edge t uid s")
  case False
  let ?new = "\<lparr>f_id = generated_id (map f_id (followers s)), userId = t, followerId = uid\<rparr>"
  let ?s1 = "s\<lparr>followers := followers s @ [?new]\<rparr>"
  have first: "followAction uid t s = (Inr ''User followed'', ?s1)"
    using followAction_follow [OF u t False] .
  have u1: "resolves uid ?s1" and t1: "resolves t ?s1"
    using u t by (simp_all add: resolves_find)
  from False have "find (\<lambda>f. userId f = t \<and> followerId f = uid) (followers s) = None"
    by (simp add: has_edge_def)
  then have e1: "find (\<lambda>f. userId f = t \<and> followerId f = uid) (followers ?s1) = Some ?new"
    by (simp add: find_inserted)
  have second: "followAction uid t ?s1 = (Inr ''User unfollowed'', s)"
    using followAction_unfollow [OF u1 t1 e1]
    by (simp add: delete_inserted count_inserted)
  from first second False show ?thesis by simp
next
  case True
  with ok have fok: "followers_ok s" by simp
  from True obtain e where e: "find (\<lambda>f. userId f = t \<and> followerId f = uid) (followers s) = Some e"
    by (auto simp: has_edge_def)
  let ?s1 = "s\<lparr>followers := filter (\<lambda>r. f_id r \<noteq> f_id e) (followers s)\<rparr>"
  from e have em: "e \<in> set (followers s)" by (auto simp: find_Some_iff)
  from fok have "distinct (map f_id (followers s))" by (simp add: followers_ok_def)
  then have one: "filter (\<lambda>r. f_id r = f_id e) (followers s) = [e]"
    using em by (rule filter_key_single)
  have first: "followAction uid t s = (Inr ''User unfollowed'', ?s1)"
    using followAction_unfollow [OF u t e] by (simp add: one)
  have u1: "resolves uid ?s1" and t1: "resolves t ?s1"
    using u t by (simp_all add: resolves_find)
  have ne: "\<not> has_edge t uid ?s1"
    using has_edge_after_delete [OF fok e] .
  have second: "followAction uid t ?s1 =
     (Inr ''User followed'',
      ?s1\<lparr>followers := followers ?s1 @
          [\<lparr>f_id = generated_id (map f_id (followers ?s1)), userId = t, followerId = uid\<rparr>]\<rparr>)"
    using followAction_follow [OF u1 t1 ne] .
  have "has_edge t uid (snd (followAction uid t ?s1))"
    unfolding second using has_edge_after_insert [of t uid ?s1] by simp
  with first second True ne show ?thesis by simp
qed

theorem followAction_toggle_witness:
  "resolves 2 store0 \<and> resolves 1 store0 \<and> \<not> has_edge 1 2 store0
   \<and> followAction 2 1 store0 =
        (Inr ''User followed'', store0\<lparr>followers := [\<lparr>f_id = 1, userId = 1, followerId = 2\<rparr>]\<rparr>)
   \<and> followAction 2 1 (snd (followAction 2 1 store0)) = (Inr ''User unfollowed'', store0)
   \<and> resolves 2 store1 \<and> resolves 1 store1 \<and> has_edge 1 2 store1 \<and> followers_ok store1
   \<and> fst (followAction 2 1 store1) = Inr ''User unfollowed''
   \<and> fst (followAction 2 1 (snd (followAction 2 1 store1))) = Inr ''User followed''
   \<and> has_edge 1 2 (snd (followAction 2 1 (snd (followAction 2 1 store1))))"
proof -
  have a: "resolves 2 store0" "resolves 1 store0" "\<not> has_edge 1 2 store0"
    by (simp_all add: resolves_find has_edge_def ex_defs)
  have b: "resolves 2 store1" "resolves 1 store1" "has_edge 1 2 store1" "followers_ok store1"
    by (simp_all add: resolves_find has_edge_def followers_ok_def ex_defs)
  have g: "followers store0 = []" "generated_id [] = 1"
    by (simp_all add: generated_id_def ex_defs)
  note t0 = followAction_toggle [of 2 store0 1] and t1 = followAction_toggle [of 2 store1 1]
  from t0 a have second:
    "followAction 2 1 (snd (followAction 2 1 store0)) = (Inr ''User unfollowed'', store0)"
    by blast
  from t0 a g have first: "followAction 2 1 store0 =
      (Inr ''User followed'', store0\<lparr>followers := [\<lparr>f_id = 1, userId = 1, followerId = 2\<rparr>]\<rparr>)"
    by simp
  from t1 b have third: "fst (followAction 2 1 store1) = Inr ''User unfollowed''"
    "fst (followAction 2 1 (snd (followAction 2 1 store1))) = Inr ''User followed''"
    "has_edge 1 2 (snd (followAction 2 1 (snd (followAction 2 1 store1))))"
    by blast+
  from a b first second third show ?thesis by blast
qed

lemma followAction_via_unfollow:
  assumes "resolves uid s" "resolves t s"
    and "find (\<lambda>f. userId f = t \<and> followerId f = uid) (followers s) = Some e"
  shows "followAction_via del uid t s =
     (if fst (del (f_id e) (followers s)) \<noteq> 1
      then Inl (InternalServerErrorException ''Database error'') else Inr ''User unfollowed'',
      s\<lparr>followers := snd (del (f_id e) (followers s))\<rparr>)"
  using assms
  by (auto simp: resolves_find followAction_via_def split: option.splits prod.splits)

text \<open>
  Claim C8. Whatever the repository replies to the delete, \<open>followAction\<close> fails
  with NotFound and leaves the store as it is when the actor does not resolve to a
  principal that is not tombstoned, and likewise when the target does not. When the edge
  is found and the delete reports a number of affected rows other than one (zero, when
  the row is gone by the time of the delete, or more than one), it fails with the
  internal error; when the delete reports one row, it answers "User unfollowed".
\<close>

theorem followAction_failures:
  "(\<not> resolves uid s \<longrightarrow>
       followAction_via del uid t s = (Inl (NotFoundException ''User not found''), s))
   \<and> (resolves uid s \<and> \<not> resolves t s \<longrightarrow>
       followAction_via del uid t s =
         (Inl (NotFoundException ''User who you are trying to follow does not exist''), s))
   \<and> (resolves uid s \<and> resolves t s
       \<and> find (\<lambda>f. userId f = t \<and> followerId f = uid) (followers s) = Some e
       \<and> fst (del (f_id e) (followers s)) \<noteq> 1 \<longrightarrow>
       fst (followAction_via del uid t s) = Inl (InternalServerErrorException ''Database error''))
   \<and> (resolves uid s \<and> resolves t s
       \<and> find (\<lambda>f. userId f = t \<and> followerId f = uid) (followers s) = Some e
       \<and> fst (del (f_id e) (followers s)) = 1 \<longrightarrow>
       fst (followAction_via del uid t s) = Inr ''User unfollowed'')"
proof (intro conjI impI)
  assume "\<not> resolves uid s"
  then show "followAction_via del uid t s = (Inl (NotFoundException ''User not found''), s)"
    by (simp add: resolves_find followAction_via_def)
next
  assume "resolves uid s \<and> \<not> resolves t s"
  then show "followAction_via del uid t s =
      (Inl (NotFoundException ''User who you are trying to follow does not exist''), s)"
    by (auto simp: resolves_find followAction_via_def)
next
  assume h: "resolves uid s \<and> resolves t s
       \<and> find (\<lambda>f. userId f = t \<and> followerId f = uid) (followers s) = Some e
       \<and> fst (del (f_id e) (followers s)) \<noteq> 1"
  then show "fst (followAction_via del uid t s) = Inl (InternalServerErrorException ''Database error'')"
    using followAction_via_unfollow [of uid s t e del] by simp
next
  assume h: "resolves uid s \<and> resolves t s
       \<and> find (\<lambda>f. userId f = t \<and> followerId f = uid) (followers s) = Some e
       \<and> fst (del (f_id e) (followers s)) = 1"
  then show "fst (followAction_via del uid t s) = Inr ''User unfollowed''"
    using followAction_via_unfollow [of uid s t e del] by simp
qed

theorem followAction_failures_witness:
  "\<not> resolves 9 store0
   \<and> followAction 9 1 store0 = (Inl (NotFoundException ''User not found''), store0)
   \<and> resolves 2 store0 \<and> \<not> resolves 3 store0
   \<and> followAction 2 3 store0 =
       (Inl (NotFoundException ''User who you are trying to follow does not exist''), store0)
   \<and> resolves 2 store1 \<and> resolves 1 store1 \<and> followers_ok store1
   \<and> find (\<lambda>f. userId f = 1 \<and> followerId f = 2) (followers store1)
        = Some \<lparr>f_id = 1, userId = 1, followerId = 2\<rparr>
   \<and> fst (repo_delete_after (filter (\<lambda>r. f_id r \<noteq> 1)) 1 (followers store1)) = 0
   \<and> fst (followAction_via (repo_delete_after (filter (\<lambda>r. f_id r \<noteq> 1))) 2 1 store1)
        = Inl (InternalServerErrorException ''Database error'')
   \<and> fst (repo_delete 1 (followers store1)) = 1
   \<and> fst (followAction 2 1 store1) = Inr ''User unfollowed''
   \<and> resolves 2 store_dup \<and> resolves 1 store_dup
   \<and> find (\<lambda>f. userId f = 1 \<and> followerId f = 2) (followers store_dup)
        = Some \<lparr>f_id = 1, userId = 1, followerId = 2\<rparr>
   \<and> fst (repo_delete 1 (followers store_dup)) = 2
   \<and> fst (followAction 2 1 store_dup) = Inl (InternalServerErrorException ''Database error'')"
proof -
  let ?e = "\<lparr>f_id = 1, userId = 1, followerId = 2\<rparr>"
  let ?lost = "repo_delete_after (filter (\<lambda>r. f_id r \<noteq> 1))"
  have a: "\<not> resolves 9 store0" "resolves 2 store0" "\<not> resolves 3 store0"
    by (simp_all add: resolves_find ex_defs)
  have b: "resolves 2 store1" "resolves 1 store1" "followers_ok store1"
    "find (\<lambda>f. userId f = 1 \<and> followerId f = 2) (followers store1) = Some ?e"
    "fst (?lost 1 (followers store1)) = 0"
    "fst (repo_delete 1 (followers store1)) = 1"
    by (simp_all add: resolves_find followers_ok_def repo_delete_after_def repo_delete_def ex_defs)
  have c: "resolves 2 store_dup" "resolves 1 store_dup"
    "find (\<lambda>f. userId f = 1 \<and> followerId f = 2) (followers store_dup) = Some ?e"
    "fst (repo_delete 1 (followers store_dup)) = 2"
    by (simp_all add: resolves_find repo_delete_def ex_defs)
  have id1: "f_id ?e = 1" by simp
  note f1 = followAction_failures [of 9 store0 repo_delete 1]
    and f2 = followAction_failures [of 2 store0 repo_delete 3]
    and f3 = followAction_failures [of 2 store1 ?lost 1 ?e]
    and f4 = followAction_failures [of 2 store1 repo_delete 1 ?e]
    and f5 = followAction_failures [of 2 store_dup repo_delete 1 ?e]
  from f1 a(1) have d1: "followAction 9 1 store0 = (Inl (NotFoundException ''User not found''), store0)"
    by (simp add: followAction_def)
  from f2 a(2,3) have d2: "followAction 2 3 store0 =
       (Inl (NotFoundException ''User who you are trying to follow does not exist''), store0)"
    by (simp add: followAction_def)
  from f3 b(1,2,4,5) have d3:
    "fst (followAction_via ?lost 2 1 store1) = Inl (InternalServerErrorException ''Database error'')"
    by (simp add: id1)
  from f4 b(1,2,4,6) have d4: "fst (followAction 2 1 store1) = Inr ''User unfollowed''"
    by (simp add: followAction_def id1)
  from f5 c have d5:
    "fst (followAction 2 1 store_dup) = Inl (InternalServerErrorException ''Database error'')"
    by (simp add: followAction_def id1)
  from a b c d1 d2 d3 d4 d5 show ?thesis by blast
qed

section \<open>Deletion and update\<close>

lemma find_key_distinct:
  "distinct (map g xs) \<Longrightarrow> x \<in> set xs \<Longrightarrow> find (\<lambda>r. g r = g x) xs = Some x"
proof (induction xs)
  case Nil
  then show ?case by simp
next
  case (Cons a xs)
  show ?case
  proof (cases "a = x")
    case True
    then show ?thesis by simp
  next
    case False
    with Cons.prems have "x \<in> set xs" "g a \<noteq> g x" by auto
    with Cons show ?thesis by simp
  qed
qed

lemma findOne_row:
  "findOne i s = Inr u \<Longrightarrow> u \<in> set (users s) \<and> u_id u = i \<and> deletedAt u = None"
  by (auto simp: findOne_def find_Some_iff split: option.splits)

lemma findOne_find:
  "findOne i s = Inr u \<Longrightarrow> find (\<lambda>r. u_id r = i \<and> deletedAt r = None) (users s) = Some u"
  by (auto simp: findOne_def split: option.splits)

lemma save_user_set:
  "r \<in> set (save_user u rows) \<Longrightarrow> r = u \<or> (r \<in> set rows \<and> u_id r \<noteq> u_id u)"
  by (auto simp: save_user_def split: if_splits)

lemma save_user_distinct:
  assumes "distinct (map u_id rows)" "x \<in> set rows" "u_id u = u_id x"
  shows "save_user u rows = map (\<lambda>r. if r = x then u else r) rows"
proof -
  from assms(1) have inj: "inj_on u_id (set rows)" by (simp add: distinct_map)
  have "(u_id r = u_id u) = (r = x)" if "r \<in> set rows" for r
    using inj that assms(2,3) by (auto dest: inj_onD)
  then show ?thesis by (simp add: save_user_def)
qed

lemma delete_found:
  "find (\<lambda>r. u_id r = i) (users s) = Some u \<Longrightarrow>
     delete e i s =
       (Inr ''User successfully removed'', s\<lparr>users := save_user (tombstone e u) (users s)\<rparr>)"
  by (simp add: delete_def tombstone_def Let_def)

lemma delete_missing:
  "find (\<lambda>r. u_id r = i) (users s) = None \<Longrightarrow>
     delete e i s = (Inl (NotFoundException ''User not found''), s)"
  by (simp add: delete_def)

text \<open>
  Claim C3. Deleting a stored principal keeps the row and its id, answers with the success
  message, sets the tombstone and overwrites the username and the email with the
  sentinel. The profile image is not among the overwritten fields: the blank-picture
  sentinel is written to the display name (the second assignment to it), and the stored
  profile image stays as it was. Evaluated for the principal with id 1.
\<close>

theorem delete_keeps_profileImage:
  "delete env0 1 store0 =
     (Inr ''User successfully removed'',
      store0\<lparr>users :=
        [alice\<lparr>deletedAt := Some 1000, username := ''[DELETED]'', email := ''[DELETED]'',
               displayName := Some ''pictures/blank-profile-picture-S4P3RS3CR3T''\<rparr>,
         bob, carol]\<rparr>)
   \<and> map profileImage (users (snd (delete env0 1 store0)))
       = [Some ''pictures/user/alice.png'', None, None]
   \<and> map displayName (users (snd (delete env0 1 store0)))
       = [Some ''pictures/blank-profile-picture-S4P3RS3CR3T'', None,
          Some ''pictures/blank-profile-picture-S4P3RS3CR3T'']"
  by (simp add: delete_def save_user_def ex_defs)

text \<open>
  Claim C7. In a user table that meets its constraints, deleting a principal that
  \<open>findOne\<close> resolves succeeds, and afterwards \<open>findOne\<close> by its id,
  \<open>findOneByEmail\<close> by its former email and \<open>findOneByUsername\<close> by its
  former username all fail with NotFound; the row is still there under its id, and the
  follower rows, the vote rows and the stored objects are as before.
\<close>

theorem delete_hides_principal:
  assumes ok: "users_ok s" and u: "findOne i s = Inr u"
  shows "fst (delete e i s) = Inr ''User successfully removed''
    \<and> findOne i (snd (delete e i s)) = Inl (NotFoundException ''User not found'')
    \<and> findOneByEmail (email u) (snd (delete e i s)) = Inl (NotFoundException ''User not found'')
    \<and> findOneByUsername (username u) (snd (delete e i s)) = Inl (NotFoundException ''User not found'')
    \<and> map u_id (users (snd (delete e i s))) = map u_id (users s)
    \<and> followers (snd (delete e i s)) = followers s
    \<and> commentvotes (snd (delete e i s)) = commentvotes s
    \<and> s3 (snd (delete e i s)) = s3 s"
proof -
  from u have um: "u \<in> set (users s)" "u_id u = i" "deletedAt u = None"
    using findOne_row by blast+
  from ok have d: "distinct (map u_id (users s))"
    and dn: "inj_on username (set (filter live (users s)))"
    and de: "inj_on email (set (filter live (users s)))"
    by (simp_all add: users_ok_def distinct_map)
  have "find (\<lambda>r. u_id r = u_id u) (users s) = Some u"
    using d um(1) by (rule find_key_distinct)
  with um have del: "delete e i s =
      (Inr ''User successfully removed'', s\<lparr>users := save_user (tombstone e u) (users s)\<rparr>)"
    by (simp add: delete_found)
  let ?rows = "save_user (tombstone e u) (users s)"
  have rows: "r = tombstone e u \<or> (r \<in> set (users s) \<and> u_id r \<noteq> i)" if "r \<in> set ?rows" for r
    using save_user_set [OF that] um(2) by (simp add: tombstone_def)
  have dead: "deletedAt (tombstone e u) \<noteq> None"
    by (simp add: tombstone_def)
  have other: "username r \<noteq> username u \<and> email r \<noteq> email u"
    if "r \<in> set (users s)" "u_id r \<noteq> i" "deletedAt r = None" for r
  proof -
    from that um have "r \<in> set (filter live (users s))" "u \<in> set (filter live (users s))" "r \<noteq> u"
      by (auto simp: live_def)
    with dn de show ?thesis by (auto dest: inj_onD)
  qed
  have gone: "u_id r \<noteq> i \<and> email r \<noteq> email u \<and> username r \<noteq> username u"
    if "r \<in> set ?rows" "deletedAt r = None" for r
  proof -
    from rows [OF that(1)] dead that(2) have "r \<in> set (users s)" "u_id r \<noteq> i"
      by auto
    with other [of r] that(2) show ?thesis by simp
  qed
  have f1: "find (\<lambda>r. u_id r = i \<and> deletedAt r = None) ?rows = None"
    unfolding find_None_iff using gone by blast
  have f2: "find (\<lambda>r. email r = email u \<and> deletedAt r = None) ?rows = None"
    unfolding find_None_iff using gone by blast
  have f3: "find (\<lambda>r. username r = username u \<and> deletedAt r = None) ?rows = None"
    unfolding find_None_iff using gone by blast
  have ids: "map u_id ?rows = map u_id (users s)"
    using um(2) by (simp add: save_user_def tombstone_def)
  show ?thesis
    using f1 f2 f3 ids
    by (simp add: del findOne_def findOneByEmail_def findOneByUsername_def)
qed

theorem delete_hides_principal_witness:
  "users_ok store1 \<and> findOne 1 store1 = Inr alice
   \<and> fst (delete env0 1 store1) = Inr ''User successfully removed''
   \<and> findOne 1 (snd (delete env0 1 store1)) = Inl (NotFoundException ''User not found'')
   \<and> findOneByEmail ''a@x.com'' (snd (delete env0 1 store1)) = Inl (NotFoundException ''User not found'')
   \<and> findOneByUsername ''alice'' (snd (delete env0 1 store1)) = Inl (NotFoundException ''User not found'')
   \<and> map u_id (users (snd (delete env0 1 store1))) = [1, 2, 3]
   \<and> followers (snd (delete env0 1 store1)) = [\<lparr>f_id = 1, userId = 1, followerId = 2\<rparr>]"
proof -
  have a: "users_ok store1" "findOne 1 store1 = Inr alice"
    by (simp_all add: users_ok_def live_def findOne_def ex_defs)
  have b: "email alice = ''a@x.com''" "username alice = ''alice''"
    "map u_id (users store1) = [1, 2, 3]"
    "followers store1 = [\<lparr>f_id = 1, userId = 1, followerId = 2\<rparr>]"
    by (simp_all add: ex_defs)
  show ?thesis
    using delete_hides_principal [OF a, of env0] a b by simp
qed

lemma update_found:
  "find (\<lambda>r. u_id r = i \<and> deletedAt r = None) (users s) = Some u \<Longrightarrow>
     update i dto s =
       (let u' = u\<lparr>displayName := (if truthy (upd_displayName dto) then upd_displayName dto
                                     else displayName u),
                    profileImage := (if truthy (upd_profileImage dto) then upd_profileImage dto
                                     else profileImage u),
                    bio := (if truthy (upd_bio dto) then upd_bio dto else bio u)\<rparr>
        in (Inr u', s\<lparr>users := save_user u' (users s)\<rparr>))"
  by (simp add: update_def Let_def)

text \<open>
  Claim C10. For a principal that \<open>findOne\<close> resolves, in a user table whose
  ids are unique, \<open>update\<close> returns
  and stores a row with the same id, username, email, password and tombstone; each of
  display name, profile image and bio takes the value of the request when that is truthy
  and keeps the stored value otherwise; no other row of the table changes.
\<close>

theorem update_frame:
  assumes d: "distinct (map u_id (users s))" and u: "findOne i s = Inr u"
  shows "\<exists>u'. update i dto s = (Inr u', s\<lparr>users := map (\<lambda>r. if r = u then u' else r) (users s)\<rparr>)
    \<and> u_id u' = u_id u \<and> username u' = username u \<and> email u' = email u
    \<and> password u' = password u \<and> deletedAt u' = deletedAt u
    \<and> displayName u' = (if truthy (upd_displayName dto) then upd_displayName dto else displayName u)
    \<and> profileImage u' = (if truthy (upd_profileImage dto) then upd_profileImage dto else profileImage u)
    \<and> bio u' = (if truthy (upd_bio dto) then upd_bio dto else bio u)"
proof -
  let ?u' = "u\<lparr>displayName := (if truthy (upd_displayName dto) then upd_displayName dto
                                     else displayName u),
                    profileImage := (if truthy (upd_profileImage dto) then upd_profileImage dto
                                     else profileImage u),
                    bio := (if truthy (upd_bio dto) then upd_bio dto else bio u)\<rparr>"
  from u have um: "u \<in> set (users s)" using findOne_row by blast
  have sv: "save_user ?u' (users s) = map (\<lambda>r. if r = u then ?u' else r) (users s)"
    using d um by (rule save_user_distinct) simp
  have "update i dto s = (Inr ?u', s\<lparr>users := save_user ?u' (users s)\<rparr>)"
    using update_found [OF findOne_find [OF u], of dto] by (simp add: Let_def)
  with sv have "update i dto s =
      (Inr ?u', s\<lparr>users := map (\<lambda>r. if r = u then ?u' else r) (users s)\<rparr>)"
    by simp
  then show ?thesis
    by (intro exI [of _ ?u']) simp
qed

theorem update_frame_witness:
  "distinct (map u_id (users store0)) \<and> findOne 1 store0 = Inr alice
   \<and> (\<exists>u'. update 1 \<lparr>upd_displayName = Some ''Al'', upd_profileImage = None, upd_bio = Some []\<rparr> store0
              = (Inr u', store0\<lparr>users := [u', bob, carol]\<rparr>)
          \<and> u_id u' = 1 \<and> username u' = ''alice'' \<and> email u' = ''a@x.com''
          \<and> password u' = ''argon2:p1'' \<and> deletedAt u' = None
          \<and> displayName u' = Some ''Al''
          \<and> profileImage u' = Some ''pictures/user/alice.png''
          \<and> bio u' = Some ''hello'')"
proof -
  have a: "distinct (map u_id (users store0))" "findOne 1 store0 = Inr alice"
    by (simp_all add: findOne_def ex_defs)
  have b: "map (\<lambda>r. if r = alice then u' else r) (users store0) = [u', bob, carol]" for u'
    by (simp add: ex_defs)
  have c: "u_id alice = 1" "username alice = ''alice''" "email alice = ''a@x.com''"
    "password alice = ''argon2:p1''" "deletedAt alice = None" "displayName alice = Some ''Alice''"
    "profileImage alice = Some ''pictures/user/alice.png''" "bio alice = Some ''hello''"
    by (simp_all add: alice_def)
  show ?thesis
    using update_frame [OF a, of "\<lparr>upd_displayName = Some ''Al'', upd_profileImage = None, upd_bio = Some []\<rparr>"] a
    by (simp add: b c truthy_def)
qed



section \<open>Registration and upload\<close>

lemma taken_iff:
  "taken dto s = (\<exists>r\<in>set (users s). username r = reg_username dto \<or> email r = reg_email dto)"
  by (auto simp: taken_def find_None_iff)

lemma register_taken:
  "taken dto s \<Longrightarrow>
     register e dto s =
       (Inl (BadRequestException ''Email or Username is already taken'' ''Validation failed''), s)"
  by (auto simp: taken_def register_def)

lemma uploadProfileImage_stored:
  "truthy (s3BucketName e) \<Longrightarrow> s3Accepts e \<Longrightarrow>
     uploadProfileImage e payload name s =
       (Inr (''pictures/user/'' @ name @ ''.png''),
        s\<lparr>s3 := s3 s @
          [\<lparr>Bucket = (case s3BucketName e of Some b \<Rightarrow> b | None \<Rightarrow> []),
            Key = ''pictures/user/'' @ name @ ''.png'',
            Body = base64 e (replace_mime payload),
            ACL = ''public-read'', ContentEncoding = ''base64'', ContentType = ''image/png''\<rparr>]\<rparr>)"
  by (simp add: uploadProfileImage_def s3_upload_def)

lemma uploadProfileImage_failed:
  "\<not> (truthy (s3BucketName e) \<and> s3Accepts e) \<Longrightarrow>
     uploadProfileImage e payload name s = (Inl (InternalServerErrorException []), s)"
  by (auto simp: uploadProfileImage_def s3_upload_def)

lemma register_fresh:
  assumes "\<not> taken dto s"
  shows "register e dto s =
    (if truthy (reg_profileImage dto) \<and> \<not> (truthy (s3BucketName e) \<and> s3Accepts e)
     then (Inl (InternalServerErrorException []), s)
     else
       (let s1 = snd (uploadProfileImage e (case reg_profileImage dto of Some p \<Rightarrow> p | None \<Rightarrow> [])
                         (reg_username dto) s);
            s2 = (if truthy (reg_profileImage dto) then s1 else s);
            savedUser =
              \<lparr>u_id = generated_id (map u_id (users s)),
               username = reg_username dto,
               email = reg_email dto,
               password = hash e (reg_password dto),
               displayName = (if truthy (reg_displayName dto) then reg_displayName dto else None),
               profileImage = (if truthy (reg_profileImage dto)
                               then Some (''pictures/user/'' @ reg_username dto @ ''.png'') else None),
               bio = (if truthy (reg_bio dto) then reg_bio dto else None),
               deletedAt = None\<rparr>
        in (Inr savedUser, s2\<lparr>users := users s @ [savedUser]\<rparr>)))"
proof (cases "truthy (reg_profileImage dto)")
  case False
  with assms show ?thesis
    by (auto simp: taken_def register_def truthy_def insert_user_def Let_def split: option.splits)
next
  case True
  then obtain p where p: "reg_profileImage dto = Some p" "p \<noteq> []"
    by (auto simp: truthy_def split: option.splits)
  show ?thesis
  proof (cases "truthy (s3BucketName e) \<and> s3Accepts e")
    case ok: True
    with assms True p show ?thesis
      by (simp add: taken_def register_def insert_user_def Let_def uploadProfileImage_stored)
  next
    case bad: False
    with assms True p show ?thesis
      by (simp add: taken_def register_def uploadProfileImage_failed)
  qed
qed

text \<open>
  Claim C6, as amended. A registration whose username equals the username of a stored row,
  or whose email equals the email of one, fails with the validation error and leaves the
  store as it is. A registration with a fresh username and email whose profile image is
  absent or empty, or is uploaded (bucket name configured and upload accepted), appends
  exactly one row, under a new id, carrying that username and email. A registration with
  a fresh username and email and a profile image whose upload does not go through fails
  with the internal error and creates no row.
\<close>

theorem register_outcome:
  "((\<exists>r\<in>set (users s). username r = reg_username dto \<or> email r = reg_email dto) \<longrightarrow>
      register e dto s =
        (Inl (BadRequestException ''Email or Username is already taken'' ''Validation failed''), s))
   \<and> (\<not> (\<exists>r\<in>set (users s). username r = reg_username dto \<or> email r = reg_email dto)
       \<and> (truthy (reg_profileImage dto) \<longrightarrow> truthy (s3BucketName e) \<and> s3Accepts e) \<longrightarrow>
      (\<exists>u. fst (register e dto s) = Inr u
         \<and> users (snd (register e dto s)) = users s @ [u]
         \<and> username u = reg_username dto \<and> email u = reg_email dto
         \<and> u_id u \<notin> set (map u_id (users s)) \<and> deletedAt u = None))
   \<and> (\<not> (\<exists>r\<in>set (users s). username r = reg_username dto \<or> email r = reg_email dto)
       \<and> truthy (reg_profileImage dto) \<and> \<not> (truthy (s3BucketName e) \<and> s3Accepts e) \<longrightarrow>
      register e dto s = (Inl (InternalServerErrorException []), s))"
proof (intro conjI impI)
  assume "\<exists>r\<in>set (users s). username r = reg_username dto \<or> email r = reg_email dto"
  then have "taken dto s" by (simp add: taken_iff)
  then show "register e dto s =
        (Inl (BadRequestException ''Email or Username is already taken'' ''Validation failed''), s)"
    by (rule register_taken)
next
  assume h: "\<not> (\<exists>r\<in>set (users s). username r = reg_username dto \<or> email r = reg_email dto)
       \<and> (truthy (reg_profileImage dto) \<longrightarrow> truthy (s3BucketName e) \<and> s3Accepts e)"
  then have nt: "\<not> taken dto s" by (simp add: taken_iff)
  have fresh: "generated_id (map u_id (users s)) \<notin> set (map u_id (users s))"
    by (rule generated_id_fresh)
  from h have "\<not> (truthy (reg_profileImage dto) \<and> \<not> (truthy (s3BucketName e) \<and> s3Accepts e))"
    by blast
  with fresh show "\<exists>u. fst (register e dto s) = Inr u
         \<and> users (snd (register e dto s)) = users s @ [u]
         \<and> username u = reg_username dto \<and> email u = reg_email dto
         \<and> u_id u \<notin> set (map u_id (users s)) \<and> deletedAt u = None"
    unfolding register_fresh [OF nt]
    by (simp add: Let_def uploadProfileImage_stored)
next
  assume h: "\<not> (\<exists>r\<in>set (users s). username r = reg_username dto \<or> email r = reg_email dto)
       \<and> truthy (reg_profileImage dto) \<and> \<not> (truthy (s3BucketName e) \<and> s3Accepts e)"
  then have nt: "\<not> taken dto s" by (simp add: taken_iff)
  from h show "register e dto s = (Inl (InternalServerErrorException []), s)"
    unfolding register_fresh [OF nt] by simp
qed

text \<open>
  Claim C6 as stated fails: a registration with a fresh username and email and a profile
  image creates no row when the bucket name is not configured.
\<close>

theorem register_unconfigured_counterexample:
  "\<not> taken dave_dto store0
   \<and> register env_unconfigured dave_dto store0 = (Inl (InternalServerErrorException []), store0)"
  by (simp add: taken_def register_def uploadProfileImage_def truthy_def ex_defs)

theorem register_outcome_witness:
  "taken alice2_dto store0
   \<and> register env0 alice2_dto store0 =
        (Inl (BadRequestException ''Email or Username is already taken'' ''Validation failed''), store0)
   \<and> \<not> taken alice_dto empty_store \<and> \<not> truthy (reg_profileImage alice_dto)
   \<and> (\<exists>u. fst (register env0 alice_dto empty_store) = Inr u
          \<and> users (snd (register env0 alice_dto empty_store)) = [u]
          \<and> username u = ''alice'' \<and> email u = ''a@x.com'')
   \<and> map u_id (users (snd (register env0 alice_dto empty_store))) = [1]
   \<and> \<not> taken dave_dto store0 \<and> truthy (reg_profileImage dave_dto)
   \<and> truthy (s3BucketName env0) \<and> s3Accepts env0
   \<and> (\<exists>u. fst (register env0 dave_dto store0) = Inr u
          \<and> users (snd (register env0 dave_dto store0)) = users store0 @ [u]
          \<and> username u = ''dave'' \<and> email u = ''d@z.com'')
   \<and> \<not> truthy (s3BucketName env_unconfigured)
   \<and> register env_unconfigured dave_dto store0 = (Inl (InternalServerErrorException []), store0)"
proof -
  have a: "taken alice2_dto store0" "\<not> taken alice_dto empty_store"
    "\<not> truthy (reg_profileImage alice_dto)" "\<not> taken dave_dto store0"
    "truthy (reg_profileImage dave_dto)" "truthy (s3BucketName env0)" "s3Accepts env0"
    "\<not> truthy (s3BucketName env_unconfigured)"
    by (simp_all add: taken_def truthy_def ex_defs)
  have b: "users empty_store = []" "reg_username alice_dto = ''alice''"
    "reg_email alice_dto = ''a@x.com''" "reg_username dave_dto = ''dave''"
    "reg_email dave_dto = ''d@z.com''"
    by (simp_all add: ex_defs)
  have one: "map u_id (users (snd (register env0 alice_dto empty_store))) = [1]"
    by (simp add: register_def insert_user_def generated_id_def truthy_def Let_def ex_defs)
  note r1 = register_outcome [of store0 alice2_dto env0]
    and r2 = register_outcome [of empty_store alice_dto env0]
    and r3 = register_outcome [of store0 dave_dto env0]
    and r4 = register_outcome [of store0 dave_dto env_unconfigured]
  from r1 a(1) have c1: "register env0 alice2_dto store0 =
        (Inl (BadRequestException ''Email or Username is already taken'' ''Validation failed''), store0)"
    by (simp add: taken_iff)
  from r2 a(2,3) have c2: "\<exists>u. fst (register env0 alice_dto empty_store) = Inr u
          \<and> users (snd (register env0 alice_dto empty_store)) = [u]
          \<and> username u = ''alice'' \<and> email u = ''a@x.com''"
    by (auto simp: taken_iff b)
  from r3 a(4-7) have c3: "\<exists>u. fst (register env0 dave_dto store0) = Inr u
          \<and> users (snd (register env0 dave_dto store0)) = users store0 @ [u]
          \<and> username u = ''dave'' \<and> email u = ''d@z.com''"
    by (auto simp: taken_iff b)
  from r4 a(4,5,8) have c4:
    "register env_unconfigured dave_dto store0 = (Inl (InternalServerErrorException []), store0)"
    by (simp add: taken_iff)
  from a one c1 c2 c3 c4 show ?thesis by blast
qed

lemma replace_mime_data: "replace_mime (''data:'' @ rest) = ''data:'' @ rest"
  by (simp add: replace_mime_def drop_prefix_def)

lemma replace_mime_body:
  assumes "w \<noteq> []" "\<forall>c\<in>set w. word_char c"
  shows "replace_mime (''body:image/'' @ w @ '';base64,'' @ rest) = rest"
proof -
  have sc: "\<not> word_char CHR '';''" by (simp add: word_char_def)
  have tw: "takeWhile word_char (w @ '';base64,'' @ rest) = w"
    using assms(2) sc by (simp add: takeWhile_append2)
  have dw: "dropWhile word_char (w @ '';base64,'' @ rest) = '';base64,'' @ rest"
    using assms(2) sc by (simp add: dropWhile_append2)
  have "drop_prefix ''body:image/'' (''body:image/'' @ w @ '';base64,'' @ rest)
          = Some (w @ '';base64,'' @ rest)"
    by (simp add: drop_prefix_def)
  moreover have "drop_prefix '';base64,'' ('';base64,'' @ rest) = Some rest"
    by (simp add: drop_prefix_def)
  ultimately show ?thesis
    using assms(1) by (simp add: replace_mime_def tw dw del: append.simps)
qed

text \<open>
  Claim C4. The upload stores the decoded payload under
  \<^verbatim>\<open>pictures/user/<username>.png\<close> with the public-read ACL and returns that key,
  and fails with the internal error without a bucket name. The prefix it strips before
  decoding is \<^verbatim>\<open>body:image/<type>;base64,\<close>; the prefix of a data URI,
  \<^verbatim>\<open>data:image/<type>;base64,\<close>, is left in place and handed to the decoder
  with the rest. Evaluated for the payload \<^verbatim>\<open>data:image/png;base64,QUJD\<close>.
\<close>

theorem uploadProfileImage_data_uri:
  "replace_mime ''data:image/png;base64,QUJD'' = ''data:image/png;base64,QUJD''
   \<and> replace_mime ''body:image/png;base64,QUJD'' = ''QUJD''
   \<and> uploadProfileImage env0 ''data:image/png;base64,QUJD'' ''dave'' store0 =
       (Inr ''pictures/user/dave.png'',
        store0\<lparr>s3 := [\<lparr>Bucket = ''noddit'', Key = ''pictures/user/dave.png'',
                        Body = base64 env0 ''data:image/png;base64,QUJD'',
                        ACL = ''public-read'', ContentEncoding = ''base64'',
                        ContentType = ''image/png''\<rparr>]\<rparr>)
   \<and> base64 env0 ''data:image/png;base64,QUJD'' \<noteq> base64 env0 ''QUJD''
   \<and> uploadProfileImage env_unconfigured ''data:image/png;base64,QUJD'' ''dave'' store0 =
       (Inl (InternalServerErrorException []), store0)"
proof -
  have r: "replace_mime ''data:image/png;base64,QUJD'' = ''data:image/png;base64,QUJD''"
    using replace_mime_data [of "''image/png;base64,QUJD''"] by simp
  have b: "replace_mime ''body:image/png;base64,QUJD'' = ''QUJD''"
    using replace_mime_body [of "''png''" "''QUJD''"] by (simp add: word_char_def)
  have ok: "truthy (s3BucketName env0)" "s3Accepts env0" "s3 store0 = []"
    "s3BucketName env0 = Some ''noddit''"
    by (simp_all add: truthy_def ex_defs)
  have u: "uploadProfileImage env0 ''data:image/png;base64,QUJD'' ''dave'' store0 =
       (Inr ''pictures/user/dave.png'',
        store0\<lparr>s3 := [\<lparr>Bucket = ''noddit'', Key = ''pictures/user/dave.png'',
                        Body = base64 env0 ''data:image/png;base64,QUJD'',
                        ACL = ''public-read'', ContentEncoding = ''base64'',
                        ContentType = ''image/png''\<rparr>]\<rparr>)"
    unfolding uploadProfileImage_stored [OF ok(1,2)] r by (simp add: ok)
  have n: "base64 env0 ''data:image/png;base64,QUJD'' \<noteq> base64 env0 ''QUJD''"
    by (simp add: env0_def)
  have f: "uploadProfileImage env_unconfigured ''data:image/png;base64,QUJD'' ''dave'' store0 =
       (Inl (InternalServerErrorException []), store0)"
    by (rule uploadProfileImage_failed) (simp add: truthy_def ex_defs)
  from r b u n f show ?thesis by blast
qed



section \<open>Votes\<close>

lemma vote_pairs:
  "map (\<lambda>v. (cv_user v, cv_comment v)) (commentvotes (vote voter target d s)) =
     (if find (\<lambda>v. cv_user v = voter \<and> cv_comment v = target) (commentvotes s) = None
      then map (\<lambda>v. (cv_user v, cv_comment v)) (commentvotes s) @ [(voter, target)]
      else map (\<lambda>v. (cv_user v, cv_comment v)) (commentvotes s))"
proof -
  have "(\<lambda>v. (cv_user v, cv_comment v)) \<circ>
          (\<lambda>v. if cv_user v = voter \<and> cv_comment v = target then v\<lparr>direction := d\<rparr> else v)
        = (\<lambda>v. (cv_user v, cv_comment v))"
    by (rule ext) simp
  then show ?thesis
    by (auto simp: vote_def split: option.splits)
qed

lemma vote_keeps_ok: "votes_ok s \<Longrightarrow> votes_ok (vote voter target d s)"
  unfolding votes_ok_def vote_pairs
  by (auto simp: find_None_iff)

lemma votes_ok_at_most_one:
  assumes "votes_ok s"
  shows "length (vote_rows voter target s) \<le> 1"
proof (cases "vote_rows voter target s")
  case Nil
  then show ?thesis by simp
next
  case (Cons x xs)
  then have "x \<in> set (vote_rows voter target s)" by simp
  then have x: "x \<in> set (commentvotes s)" "cv_user x = voter" "cv_comment x = target"
    by (simp_all add: vote_rows_def)
  have "filter (\<lambda>r. (cv_user r, cv_comment r) = (cv_user x, cv_comment x)) (commentvotes s) = [x]"
    using assms x(1) unfolding votes_ok_def by (rule filter_key_single)
  with x show ?thesis by (simp add: vote_rows_def)
qed

lemma vote_rows_after:
  assumes "votes_ok s"
  shows "\<exists>r. vote_rows voter target (vote voter target d s) = [r] \<and> direction r = d"
proof (cases "find (\<lambda>v. cv_user v = voter \<and> cv_comment v = target) (commentvotes s)")
  case None
  then have "filter (\<lambda>v. cv_user v = voter \<and> cv_comment v = target) (commentvotes s) = []"
    by (auto simp: find_None_iff filter_empty_conv)
  with None show ?thesis by (simp add: vote_rows_def vote_def)
next
  case (Some x)
  then have x: "x \<in> set (commentvotes s)" "cv_user x = voter" "cv_comment x = target"
    by (auto simp: find_Some_iff)
  have "filter (\<lambda>r. (cv_user r, cv_comment r) = (cv_user x, cv_comment x)) (commentvotes s) = [x]"
    using assms x(1) unfolding votes_ok_def by (rule filter_key_single)
  with x have one: "filter (\<lambda>v. cv_user v = voter \<and> cv_comment v = target) (commentvotes s) = [x]"
    by simp
  have "filter (\<lambda>v. cv_user v = voter \<and> cv_comment v = target)
          (map (\<lambda>v. if cv_user v = voter \<and> cv_comment v = target then v\<lparr>direction := d\<rparr> else v)
             rows)
        = map (\<lambda>v. v\<lparr>direction := d\<rparr>)
            (filter (\<lambda>v. cv_user v = voter \<and> cv_comment v = target) rows)"
    for rows :: "CommentVoteEntity list"
    by (induction rows) auto
  with Some one x show ?thesis by (simp add: vote_rows_def vote_def)
qed

lemma vote_rows_other:
  assumes "(voter', target') \<noteq> (voter, target)"
  shows "vote_rows voter' target' (vote voter target d s) = vote_rows voter' target' s"
proof -
  have "filter (\<lambda>v. cv_user v = voter' \<and> cv_comment v = target')
          (map (\<lambda>v. if cv_user v = voter \<and> cv_comment v = target then v\<lparr>direction := d\<rparr> else v) rows)
        = filter (\<lambda>v. cv_user v = voter' \<and> cv_comment v = target') rows"
    for rows :: "CommentVoteEntity list"
    using assms by (induction rows) auto
  with assms show ?thesis
    by (auto simp: vote_rows_def vote_def split: option.splits)
qed

text \<open>
  Claim C5. In a vote table with at most one row per (voter, target) pair, a vote keeps
  that constraint; two votes of one voter on one target, whatever their directions, leave
  exactly one row for the pair, and its direction is that of the second vote; the rows of
  every other pair are as before.
\<close>

theorem vote_overwrites:
  assumes "votes_ok s"
  shows "votes_ok (vote voter target d1 s)
    \<and> (\<forall>v c. length (vote_rows v c (vote voter target d1 s)) \<le> 1)
    \<and> (\<exists>r. vote_rows voter target (vote voter target d2 (vote voter target d1 s)) = [r]
           \<and> direction r = d2)
    \<and> (\<forall>v c. (v, c) \<noteq> (voter, target) \<longrightarrow>
           vote_rows v c (vote voter target d2 (vote voter target d1 s)) = vote_rows v c s)"
proof -
  have ok1: "votes_ok (vote voter target d1 s)"
    using assms by (rule vote_keeps_ok)
  then have "\<forall>v c. length (vote_rows v c (vote voter target d1 s)) \<le> 1"
    using votes_ok_at_most_one by blast
  moreover have "\<exists>r. vote_rows voter target (vote voter target d2 (vote voter target d1 s)) = [r]
           \<and> direction r = d2"
    using ok1 by (rule vote_rows_after)
  moreover have "\<forall>v c. (v, c) \<noteq> (voter, target) \<longrightarrow>
           vote_rows v c (vote voter target d2 (vote voter target d1 s)) = vote_rows v c s"
    by (simp add: vote_rows_other)
  ultimately show ?thesis using ok1 by blast
qed

theorem vote_overwrites_witness:
  "votes_ok store_voted
   \<and> votes_ok (vote 1 7 (- 1) store_voted)
   \<and> (\<exists>r. vote_rows 1 7 (vote 1 7 1 (vote 1 7 (- 1) store_voted)) = [r] \<and> direction r = 1)
   \<and> (\<exists>r. vote_rows 3 7 (vote 3 7 (- 1) (vote 3 7 1 store_voted)) = [r] \<and> direction r = - 1)
   \<and> vote_rows 2 7 (vote 1 7 1 (vote 1 7 (- 1) store_voted))
        = [\<lparr>cv_id = 2, direction = - 1, cv_user = 2, cv_comment = 7\<rparr>]"
proof -
  have a: "votes_ok store_voted"
    by (simp add: votes_ok_def ex_defs)
  have b: "vote_rows 2 7 store_voted = [\<lparr>cv_id = 2, direction = - 1, cv_user = 2, cv_comment = 7\<rparr>]"
    by (simp add: vote_rows_def ex_defs)
  note v1 = vote_overwrites [OF a, of 1 7 "- 1" 1] and v2 = vote_overwrites [OF a, of 3 7 1 "- 1"]
  from v1 have "vote_rows 2 7 (vote 1 7 1 (vote 1 7 (- 1) store_voted)) = vote_rows 2 7 store_voted"
    by simp
  with a b v1 v2 show ?thesis by simp
qed


section \<open>Context lookups\<close>

lemma currentRequestContext_cases:
  "currentRequestContext nsid getNamespace =
     (case getNamespace nsid of
        Val ns \<Rightarrow> (case active ns of Val c \<Rightarrow> Inr (c ''RequestContext'') | Null \<Rightarrow> Inr Null
                     | Undefined \<Rightarrow> Inr Null)
      | Null \<Rightarrow> Inr Null
      | Undefined \<Rightarrow> Inr Null)"
  by (simp add: currentRequestContext_def then_e_def getprop_def js_truthy_def ns_get_def Let_def
      split: js.splits)


lemma currentRequest_cases:
  "currentRequestContext nsid getNamespace = Inr v \<Longrightarrow>
     currentRequest nsid getNamespace =
       (case v of Val rc \<Rightarrow> Inr (Val (request rc)) | Null \<Rightarrow> Inr Null | Undefined \<Rightarrow> Inr Null)"
  by (simp add: currentRequest_def then_e_def getprop_def js_truthy_def split: js.splits)

lemma currentUser_cases:
  "currentRequestContext nsid getNamespace = Inr v \<Longrightarrow>
     currentUser nsid getNamespace =
       (case v of
          Val rc \<Rightarrow> (case req_user (request rc) of Val u \<Rightarrow> Inr (Val u) | Null \<Rightarrow> Inr Null
                       | Undefined \<Rightarrow> Inr Null)
        | Null \<Rightarrow> Inr Null
        | Undefined \<Rightarrow> Inr Null)"
  by (simp add: currentUser_def then_e_def getprop_def js_truthy_def Let_def split: js.splits)

lemma currentRequestContext_unbound:
  "getNamespace nsid = Val ns \<Longrightarrow> active ns = Val c \<Longrightarrow> c ''RequestContext'' = Undefined \<Longrightarrow>
     currentRequestContext nsid getNamespace = Inr Undefined
     \<and> currentRequest nsid getNamespace = Inr Null
     \<and> currentUser nsid getNamespace = Inr Null"
  using currentRequest_cases [of nsid getNamespace Undefined]
    currentUser_cases [of nsid getNamespace Undefined]
  by (simp add: currentRequestContext_cases)




section \<open>The table constraints are invariants\<close>

text \<open>
  The constraints assumed of the tables hold in the empty store and are kept by every
  operation of the service, whatever its outcome.
\<close>

lemma store_ok_empty: "users_ok empty_store \<and> followers_ok empty_store \<and> votes_ok empty_store"
  by (simp add: users_ok_def followers_ok_def votes_ok_def empty_store_def)

lemma users_ok_append:
  assumes ok: "users_ok s"
    and fresh: "u_id u \<notin> set (map u_id (users s))"
    and nt: "\<forall>r\<in>set (users s). username r \<noteq> username u \<and> email r \<noteq> email u"
  shows "users_ok (s\<lparr>users := users s @ [u]\<rparr>)"
  using assms by (auto simp: users_ok_def)

lemma users_ok_cong: "users s' = users s \<Longrightarrow> users_ok s' = users_ok s"
  by (simp add: users_ok_def)

lemma followers_ok_cong: "followers s' = followers s \<Longrightarrow> followers_ok s' = followers_ok s"
  by (simp add: followers_ok_def)

lemma register_keeps_ok:
  assumes ok: "users_ok s"
  shows "users_ok (snd (register e dto s))"
proof (cases "taken dto s")
  case True
  with ok show ?thesis by (simp add: register_taken)
next
  case False
  then have nt: "\<forall>r\<in>set (users s). username r \<noteq> reg_username dto \<and> email r \<noteq> reg_email dto"
    by (simp add: taken_iff)
  have fresh: "generated_id (map u_id (users s)) \<notin> set (map u_id (users s))"
    by (rule generated_id_fresh)
  show ?thesis
  proof (cases "truthy (reg_profileImage dto) \<and> \<not> (truthy (s3BucketName e) \<and> s3Accepts e)")
    case True
    with ok show ?thesis unfolding register_fresh [OF False] by simp
  next
    case no: False
    let ?u = "\<lparr>u_id = generated_id (map u_id (users s)),
               username = reg_username dto,
               email = reg_email dto,
               password = hash e (reg_password dto),
               displayName = (if truthy (reg_displayName dto) then reg_displayName dto else None),
               profileImage = (if truthy (reg_profileImage dto)
                               then Some (''pictures/user/'' @ reg_username dto @ ''.png'') else None),
               bio = (if truthy (reg_bio dto) then reg_bio dto else None),
               deletedAt = None\<rparr>"
    have "users_ok (s\<lparr>users := users s @ [?u]\<rparr>)"
      using ok fresh nt by (intro users_ok_append) simp_all
    moreover have "users (snd (register e dto s)) = users s @ [?u]"
      unfolding register_fresh [OF False] using no
      by (auto simp: Let_def uploadProfileImage_stored)
    ultimately show ?thesis by (simp add: users_ok_def)
  qed
qed

lemma live_filter_map_same:
  assumes "\<forall>r\<in>set rows. live (f r) = live r \<and> g (f r) = g r"
  shows "map g (filter live (map f rows)) = map g (filter live rows)"
  using assms by (induction rows) auto

lemma save_user_keeps:
  assumes d: "distinct (map u_id rows)" and m: "u \<in> set rows"
    and same: "u_id u' = u_id u" "username u' = username u" "email u' = email u" "live u' = live u"
  shows "map u_id (save_user u' rows) = map u_id rows"
    and "map username (filter live (save_user u' rows)) = map username (filter live rows)"
    and "map email (filter live (save_user u' rows)) = map email (filter live rows)"
proof -
  let ?f = "\<lambda>r. if r = u then u' else r"
  have sv: "save_user u' rows = map ?f rows"
    using d m same(1) by (rule save_user_distinct)
  have fu: "u_id (?f r) = u_id r" "username (?f r) = username r" "email (?f r) = email r"
    "live (?f r) = live r" for r
    using same by simp_all
  show "map u_id (save_user u' rows) = map u_id rows"
    unfolding sv by (simp add: fu comp_def)
  show "map username (filter live (save_user u' rows)) = map username (filter live rows)"
    unfolding sv by (rule live_filter_map_same) (simp add: fu)
  show "map email (filter live (save_user u' rows)) = map email (filter live rows)"
    unfolding sv by (rule live_filter_map_same) (simp add: fu)
qed

lemma save_user_dead:
  assumes d: "distinct (map u_id rows)" and m: "u \<in> set rows"
    and same: "u_id u' = u_id u" and dead: "\<not> live u'"
  shows "map u_id (save_user u' rows) = map u_id rows"
    and "filter live (save_user u' rows) = filter (\<lambda>r. r \<noteq> u) (filter live rows)"
proof -
  let ?f = "\<lambda>r. if r = u then u' else r"
  have sv: "save_user u' rows = map ?f rows"
    using d m same by (rule save_user_distinct)
  show "map u_id (save_user u' rows) = map u_id rows"
    unfolding sv using same by (simp add: comp_def if_distrib cong: if_cong)
  have "filter live (map ?f xs) = filter (\<lambda>r. r \<noteq> u) (filter live xs)" for xs
    using dead by (induction xs) auto
  then show "filter live (save_user u' rows) = filter (\<lambda>r. r \<noteq> u) (filter live rows)"
    unfolding sv .
qed

lemma update_keeps_ok:
  assumes ok: "users_ok s"
  shows "users_ok (snd (update i dto s))"
proof (cases "find (\<lambda>r. u_id r = i \<and> deletedAt r = None) (users s)")
  case None
  with ok show ?thesis by (simp add: update_def)
next
  case (Some u)
  let ?u' = "u\<lparr>displayName := (if truthy (upd_displayName dto) then upd_displayName dto
                                     else displayName u),
                    profileImage := (if truthy (upd_profileImage dto) then upd_profileImage dto
                                     else profileImage u),
                    bio := (if truthy (upd_bio dto) then upd_bio dto else bio u)\<rparr>"
  from Some have um: "u \<in> set (users s)" by (auto simp: find_Some_iff)
  from ok have d: "distinct (map u_id (users s))" by (simp add: users_ok_def)
  have rows: "users (snd (update i dto s)) = save_user ?u' (users s)"
    using update_found [OF Some, of dto] by (simp add: Let_def)
  have same: "u_id ?u' = u_id u" "username ?u' = username u" "email ?u' = email u"
    "live ?u' = live u"
    by (simp_all add: live_def)
  show ?thesis
    unfolding users_ok_def rows save_user_keeps [OF d um same]
    using ok by (simp add: users_ok_def)
qed

lemma delete_keeps_ok:
  assumes ok: "users_ok s"
  shows "users_ok (snd (delete e i s))"
proof (cases "find (\<lambda>r. u_id r = i) (users s)")
  case None
  with ok show ?thesis by (simp add: delete_missing)
next
  case (Some u)
  from Some have um: "u \<in> set (users s)" by (auto simp: find_Some_iff)
  from ok have d: "distinct (map u_id (users s))"
    and dn: "distinct (map username (filter live (users s)))"
    and de: "distinct (map email (filter live (users s)))"
    by (simp_all add: users_ok_def)
  have rows: "users (snd (delete e i s)) = save_user (tombstone e u) (users s)"
    by (simp add: delete_found [OF Some])
  have same: "u_id (tombstone e u) = u_id u" and dead: "\<not> live (tombstone e u)"
    by (simp_all add: tombstone_def live_def)
  have a: "distinct (map username (filter (\<lambda>r. r \<noteq> u) (filter live (users s))))"
    using dn by (rule distinct_map_filter)
  have b: "distinct (map email (filter (\<lambda>r. r \<noteq> u) (filter live (users s))))"
    using de by (rule distinct_map_filter)
  show ?thesis
    unfolding users_ok_def rows save_user_dead [OF d um same dead]
    using d a b by blast
qed

lemma followAction_users: "users (snd (followAction uid t s)) = users s"
  by (simp add: followAction_def followAction_via_def repo_delete_def Let_def split: option.splits)

lemma followAction_keeps_ok:
  assumes ok: "followers_ok s"
  shows "followers_ok (snd (followAction uid t s))"
proof (cases "resolves uid s \<and> resolves t s")
  case False
  with followAction_not_found [of uid s t] ok show ?thesis by auto
next
  case True
  then have u: "resolves uid s" and t: "resolves t s" by simp_all
  show ?thesis
  proof (cases "find (\<lambda>f. userId f = t \<and> followerId f = uid) (followers s)")
    case None
    then have ne: "\<not> has_edge t uid s" by (simp add: has_edge_def)
    from None have "(t, uid) \<notin> set (map (\<lambda>f. (userId f, followerId f)) (followers s))"
      by (auto simp: find_None_iff)
    moreover have "generated_id (map f_id (followers s)) \<notin> set (map f_id (followers s))"
      by (rule generated_id_fresh)
    ultimately show ?thesis
      using ok unfolding followAction_follow [OF u t ne]
      by (simp add: followers_ok_def)
  next
    case (Some x)
    show ?thesis
      using ok unfolding followAction_unfollow [OF u t Some]
      by (simp add: followers_ok_def distinct_map_filter)
  qed
qed


end
